theory Spec2Isabelle
  imports Main "HOL-Library.Word"
begin

section \<open>Rational numbers over fixed-width unsigned integers\<close>

text \<open>
  The header \<^verbatim>\<open>utils.h\<close> (guard \<^verbatim>\<open>SHAKA_EMBEDDED_UTILS_H_\<close>, the second part of
  \<^verbatim>\<open>src/thirdparty/include/shaka/ShakaPlayerView.h\<close>).
  \<^verbatim>\<open>template <typename T> struct Rational\<close> does not constrain \<open>T\<close>. It is embedded
  twice: first for \<open>T\<close> an unsigned integer of any width, \<open>'a word\<close>
  (\<open>FitVideoToRegion\<close> uses it at \<open>uint32_t\<close>, that is \<open>32 word\<close>), and further down for
  the signed \<open>T = int\<close> that the header names in \<^verbatim>\<open>Rational<int>\<close>.
  On words \<open>*\<close> wraps modulo \<open>2 ^ LENGTH('a)\<close>, \<open>div\<close> and \<open>mod\<close> are the unsigned
  \<^verbatim>\<open>/\<close> and \<^verbatim>\<open>%\<close>, and \<open>\<le>\<close> is the unsigned comparison.

  The two ways the C++ stops instead of returning are values of \<open>failure\<close>:
  a failed \<^verbatim>\<open>assert\<close> (with assertions compiled in) and an integer division by zero.
\<close>

datatype failure = AssertionFailed | DivisionByZero

record 'T Rational =
  numerator :: 'T
  denominator :: 'T

text \<open>
  \<^verbatim>\<open>static T gcd(T a, T b) { while (b != 0) { T temp = a % b; a = b; b = temp; } return a; }\<close>
  The loop is the recursion below; it ends because \<open>a mod b\<close> is smaller than \<open>b\<close>.
\<close>

function Rational_gcd :: "'a::len word \<Rightarrow> 'a word \<Rightarrow> 'a word" where
  "Rational_gcd a b = (if b = 0 then a else Rational_gcd b (a mod b))"
  by pat_completeness auto
termination
  by (relation "measure (\<lambda>(a, b). unat b)") (auto simp: unat_mod unat_gt_0)

declare Rational_gcd.simps [simp del]

text \<open>
  \<^verbatim>\<open>static void reduce(T* num, T* den) { T a = gcd(*num, *den); *num /= a; *den /= a; }\<close>
  The updated pair is returned; dividing by a zero gcd is the failure \<open>DivisionByZero\<close>.
\<close>

definition reduce :: "'a::len word \<Rightarrow> 'a word \<Rightarrow> failure + ('a word \<times> 'a word)" where
  "reduce num den =
     (let a = Rational_gcd num den
      in if a = 0 then Inl DivisionByZero else Inr (num div a, den div a))"

text \<open>\<^verbatim>\<open>std::numeric_limits<T>::max()\<close> of an unsigned \<open>T\<close>: all bits set.\<close>

definition numeric_limits_max :: "'a::len word" where
  "numeric_limits_max = - 1"

text \<open>
  The four \<^verbatim>\<open>reduce\<close> calls of the private constructor, in the order of the source:
  \<^verbatim>\<open>reduce(&num1, &den1); reduce(&num1, &den2); reduce(&num2, &den1); reduce(&num2, &den2);\<close>
  The result is the four variables after the calls, as \<open>(num1, num2, den1, den2)\<close>.
\<close>

definition reduce_operands ::
  "'a::len word \<Rightarrow> 'a word \<Rightarrow> 'a word \<Rightarrow> 'a word
     \<Rightarrow> failure + ('a word \<times> 'a word \<times> 'a word \<times> 'a word)" where
  "reduce_operands num1 num2 den1 den2 =
     (case reduce num1 den1 of Inl e \<Rightarrow> Inl e | Inr (num1, den1) \<Rightarrow>
     (case reduce num1 den2 of Inl e \<Rightarrow> Inl e | Inr (num1, den2) \<Rightarrow>
     (case reduce num2 den1 of Inl e \<Rightarrow> Inl e | Inr (num2, den1) \<Rightarrow>
     (case reduce num2 den2 of Inl e \<Rightarrow> Inl e | Inr (num2, den2) \<Rightarrow>
        Inr (num1, num2, den1, den2)))))"

text \<open>
  The private constructor \<^verbatim>\<open>Rational(T num1, T num2, T den1, T den2)\<close> at an unsigned
  \<open>T\<close>, which builds
  \<open>(num1 * num2) / (den1 * den2)\<close>: the zero guard, the four reductions, the two overflow
  assertions (each divides \<open>max\<close> by a residue), the two products and the final assertion
  that the result is reduced.
\<close>

definition Rational4 ::
  "'a::len word \<Rightarrow> 'a word \<Rightarrow> 'a word \<Rightarrow> 'a word \<Rightarrow> failure + 'a word Rational" where
  "Rational4 num1 num2 den1 den2 =
     (if num1 = 0 \<or> num2 = 0 \<or> den1 = 0 \<or> den2 = 0
      then Inr \<lparr>numerator = 0, denominator = 0\<rparr>
      else
        (case reduce_operands num1 num2 den1 den2 of
           Inl e \<Rightarrow> Inl e
         | Inr (num1, num2, den1, den2) \<Rightarrow>
             if num1 = 0 then Inl DivisionByZero
             else if \<not> (numeric_limits_max div num1 \<ge> num2) then Inl AssertionFailed
             else if den1 = 0 then Inl DivisionByZero
             else if \<not> (numeric_limits_max div den1 \<ge> den2) then Inl AssertionFailed
             else if Rational_gcd (num1 * num2) (den1 * den2) \<noteq> 1 then Inl AssertionFailed
             else Inr \<lparr>numerator = num1 * num2, denominator = den1 * den2\<rparr>))"

text \<open>The public constructor \<^verbatim>\<open>Rational(T num, T den) : Rational(num, 1, den, 1)\<close>.\<close>

definition Rational2 :: "'a::len word \<Rightarrow> 'a word \<Rightarrow> failure + 'a word Rational" where
  "Rational2 num den = Rational4 num 1 den 1"

text \<open>\<^verbatim>\<open>T truncate() const { return numerator / denominator; }\<close>\<close>

definition truncate_rational :: "'a::len word Rational \<Rightarrow> failure + 'a word" where
  "truncate_rational r =
     (if denominator r = 0 then Inl DivisionByZero else Inr (numerator r div denominator r))"

text \<open>
  \<^verbatim>\<open>Rational<T> inverse() const { return {denominator, numerator}; }\<close>
  The braces call the public two-argument constructor.
\<close>

definition inverse_rational :: "'a::len word Rational \<Rightarrow> failure + 'a word Rational" where
  "inverse_rational r = Rational2 (denominator r) (numerator r)"

text \<open>\<^verbatim>\<open>operator bool\<close> and \<^verbatim>\<open>operator==\<close> (component-wise).\<close>

definition to_bool :: "'a::len word Rational \<Rightarrow> bool" where
  "to_bool r = (numerator r \<noteq> 0 \<and> denominator r \<noteq> 0)"

definition equals :: "'a::len word Rational \<Rightarrow> 'a word Rational \<Rightarrow> bool" where
  "equals r other = (numerator r = numerator other \<and> denominator r = denominator other)"

text \<open>The member operators \<^verbatim>\<open>operator*\<close> and \<^verbatim>\<open>operator/\<close>, on a rational and on a number.\<close>

definition times_rational ::
  "'a::len word Rational \<Rightarrow> 'a word Rational \<Rightarrow> failure + 'a word Rational" where
  "times_rational r other =
     Rational4 (numerator r) (numerator other) (denominator r) (denominator other)"

definition times_number :: "'a::len word Rational \<Rightarrow> 'a word \<Rightarrow> failure + 'a word Rational" where
  "times_number r other = Rational4 (numerator r) other (denominator r) 1"

definition divide_rational ::
  "'a::len word Rational \<Rightarrow> 'a word Rational \<Rightarrow> failure + 'a word Rational" where
  "divide_rational r other =
     Rational4 (numerator r) (denominator other) (denominator r) (numerator other)"

definition divide_number :: "'a::len word Rational \<Rightarrow> 'a word \<Rightarrow> failure + 'a word Rational" where
  "divide_number r other = Rational4 (numerator r) 1 (denominator r) other"

text \<open>
  The free operators: \<^verbatim>\<open>operator*(T a, b)\<close> is \<^verbatim>\<open>Rational<T>{a, 1} * b\<close> and
  \<^verbatim>\<open>operator/(T a, b)\<close> is \<^verbatim>\<open>b.inverse() * a\<close>.
\<close>

definition number_times :: "'a::len word \<Rightarrow> 'a word Rational \<Rightarrow> failure + 'a word Rational" where
  "number_times a b =
     (case Rational2 a 1 of Inl e \<Rightarrow> Inl e | Inr r \<Rightarrow> times_rational r b)"

definition number_divide :: "'a::len word \<Rightarrow> 'a word Rational \<Rightarrow> failure + 'a word Rational" where
  "number_divide a b =
     (case inverse_rational b of Inl e \<Rightarrow> Inl e | Inr r \<Rightarrow> times_number r a)"

text \<open>
  The invariant of the data model: the code's own gcd of the two fields is 1, or the value
  is the canonical zero.
\<close>

definition canonical_zero :: "'a::len word Rational" where
  "canonical_zero = \<lparr>numerator = 0, denominator = 0\<rparr>"

definition reduced_or_zero :: "'a::len word Rational \<Rightarrow> bool" where
  "reduced_or_zero r =
     (Rational_gcd (numerator r) (denominator r) = 1 \<or> equals r canonical_zero)"

subsection \<open>The arithmetic the reductions stand for\<close>

text \<open>
  The same steps on natural numbers with the mathematical \<open>gcd\<close>, to state what the
  machine code computes. \<open>reduce_nat\<close> divides both numbers by their gcd.
  \<open>residues a b c d\<close> are the four numbers left of the product \<open>(a/b) * (c/d)\<close> after
  reducing each numerator against each denominator, in the order \<open>(a, b)\<close>, \<open>(a, d)\<close>,
  \<open>(c, b)\<close>, \<open>(c, d)\<close>; it returns the residues of \<open>a\<close>, \<open>c\<close>, \<open>b\<close>, \<open>d\<close>.
\<close>

definition reduce_nat :: "nat \<Rightarrow> nat \<Rightarrow> nat \<times> nat" where
  "reduce_nat a b = (a div gcd a b, b div gcd a b)"

definition residues :: "nat \<Rightarrow> nat \<Rightarrow> nat \<Rightarrow> nat \<Rightarrow> nat \<times> nat \<times> nat \<times> nat" where
  "residues a b c d =
     (case reduce_nat a b of (a1, b1) \<Rightarrow>
      case reduce_nat a1 d of (a2, d1) \<Rightarrow>
      case reduce_nat c b1 of (c1, b2) \<Rightarrow>
      case reduce_nat c1 d1 of (c2, d2) \<Rightarrow> (a2, c2, b2, d2))"

text \<open>
  The reduction as the specification words it for \<open>(a/b) * (c/d)\<close>: the pairs
  \<open>(a, c)\<close>, \<open>(a, d)\<close>, \<open>(b, c)\<close>, \<open>(b, d)\<close>, in that order.
\<close>

definition residues_as_specified ::
  "nat \<Rightarrow> nat \<Rightarrow> nat \<Rightarrow> nat \<Rightarrow> nat \<times> nat \<times> nat \<times> nat" where
  "residues_as_specified a b c d =
     (case reduce_nat a c of (a1, c1) \<Rightarrow>
      case reduce_nat a1 d of (a2, d1) \<Rightarrow>
      case reduce_nat b c1 of (b1, c2) \<Rightarrow>
      case reduce_nat b1 d1 of (b2, d2) \<Rightarrow> (a2, c2, b2, d2))"

text \<open>
  The product of the residues as the constructor forms it: both products must be within
  the range of the integer type, or the construction stops.
\<close>

definition multiply_residues :: "nat \<times> nat \<times> nat \<times> nat \<Rightarrow> failure + 'a::len word Rational" where
  "multiply_residues t =
     (case t of (a', c', b', d') \<Rightarrow>
        if a' * c' \<le> unat (numeric_limits_max :: 'a word)
           \<and> b' * d' \<le> unat (numeric_limits_max :: 'a word)
        then Inr \<lparr>numerator = of_nat (a' * c'), denominator = of_nat (b' * d')\<rparr>
        else Inl AssertionFailed)"

subsection \<open>The constructor at the signed type int\<close>

text \<open>
  \<^verbatim>\<open>Rational<int>\<close>, with \<open>int\<close> 32 bits wide: the values are the integers from
  \<open>- INT_MAX - 1\<close> to \<open>INT_MAX\<close>. \<open>c_div\<close> and \<open>c_mod\<close> are C++'s \<^verbatim>\<open>/\<close> and \<^verbatim>\<open>%\<close>,
  which truncate towards zero. A signed result out of range is undefined in C++; the
  model takes the two's complement value that the machine multiplication leaves,
  \<open>wrap_int\<close>, so that what the code then does with it can be read off.
\<close>

definition INT_MAX :: int where
  "INT_MAX = 2147483647"

definition wrap_int :: "int \<Rightarrow> int" where
  "wrap_int v = (v + 2147483648) mod 4294967296 - 2147483648"

definition c_div :: "int \<Rightarrow> int \<Rightarrow> int" where
  "c_div a b = sgn a * sgn b * (\<bar>a\<bar> div \<bar>b\<bar>)"

definition c_mod :: "int \<Rightarrow> int \<Rightarrow> int" where
  "c_mod a b = sgn a * (\<bar>a\<bar> mod \<bar>b\<bar>)"

text \<open>
  The gcd loop, \<^verbatim>\<open>reduce\<close> and the private constructor again, line by line, at \<open>int\<close>.
  The loop ends because the remainder is smaller in absolute value than the divisor.
\<close>

function gcd_int :: "int \<Rightarrow> int \<Rightarrow> int" where
  "gcd_int a b = (if b = 0 then a else gcd_int b (c_mod a b))"
  by pat_completeness auto
termination
proof (relation "measure (\<lambda>(a, b). nat \<bar>b\<bar>)")
  show "wf (measure (\<lambda>(a, b). nat \<bar>b\<bar>))" by simp
next
  fix a b :: int
  assume "b \<noteq> 0"
  then have "\<bar>c_mod a b\<bar> < \<bar>b\<bar>"
    by (cases "a = 0") (simp_all add: c_mod_def abs_mult)
  then show "((b, c_mod a b), (a, b)) \<in> measure (\<lambda>(a, b). nat \<bar>b\<bar>)" by simp
qed

declare gcd_int.simps [simp del]

definition reduce_int :: "int \<Rightarrow> int \<Rightarrow> failure + (int \<times> int)" where
  "reduce_int num den =
     (let a = gcd_int num den
      in if a = 0 then Inl DivisionByZero
         else Inr (wrap_int (c_div num a), wrap_int (c_div den a)))"

definition reduce_operands_int ::
  "int \<Rightarrow> int \<Rightarrow> int \<Rightarrow> int \<Rightarrow> failure + (int \<times> int \<times> int \<times> int)" where
  "reduce_operands_int num1 num2 den1 den2 =
     (case reduce_int num1 den1 of Inl e \<Rightarrow> Inl e | Inr (num1, den1) \<Rightarrow>
     (case reduce_int num1 den2 of Inl e \<Rightarrow> Inl e | Inr (num1, den2) \<Rightarrow>
     (case reduce_int num2 den1 of Inl e \<Rightarrow> Inl e | Inr (num2, den1) \<Rightarrow>
     (case reduce_int num2 den2 of Inl e \<Rightarrow> Inl e | Inr (num2, den2) \<Rightarrow>
        Inr (num1, num2, den1, den2)))))"

definition Rational4_int :: "int \<Rightarrow> int \<Rightarrow> int \<Rightarrow> int \<Rightarrow> failure + int Rational" where
  "Rational4_int num1 num2 den1 den2 =
     (if num1 = 0 \<or> num2 = 0 \<or> den1 = 0 \<or> den2 = 0
      then Inr \<lparr>numerator = 0, denominator = 0\<rparr>
      else
        (case reduce_operands_int num1 num2 den1 den2 of
           Inl e \<Rightarrow> Inl e
         | Inr (num1, num2, den1, den2) \<Rightarrow>
             if num1 = 0 then Inl DivisionByZero
             else if \<not> (c_div INT_MAX num1 \<ge> num2) then Inl AssertionFailed
             else if den1 = 0 then Inl DivisionByZero
             else if \<not> (c_div INT_MAX den1 \<ge> den2) then Inl AssertionFailed
             else if gcd_int (wrap_int (num1 * num2)) (wrap_int (den1 * den2)) \<noteq> 1
               then Inl AssertionFailed
             else Inr \<lparr>numerator = wrap_int (num1 * num2),
                       denominator = wrap_int (den1 * den2)\<rparr>))"

text \<open>
  \<^verbatim>\<open>Rational(T num, T den)\<close> and the member \<^verbatim>\<open>operator*(U other)\<close>, which is
  \<^verbatim>\<open>{numerator, other, denominator, 1}\<close>, at \<open>int\<close>.
\<close>

definition Rational2_int :: "int \<Rightarrow> int \<Rightarrow> failure + int Rational" where
  "Rational2_int num den = Rational4_int num 1 den 1"

definition times_number_int :: "int Rational \<Rightarrow> int \<Rightarrow> failure + int Rational" where
  "times_number_int r other = Rational4_int (numerator r) other (denominator r) 1"

section \<open>Rectangles and fill modes\<close>

text \<open>
  \<^verbatim>\<open>enum class VideoFillMode : uint8_t { MaintainRatio, Stretch, Zoom }\<close> and
  \<^verbatim>\<open>template <typename T> struct ShakaRect { T x; T y; T w; T h; }\<close>. The fields are
  named \<open>rect_x\<close>, \<open>rect_y\<close>, \<open>rect_w\<close>, \<open>rect_h\<close> here, so that the one-letter names
  stay free for variables. Equality of records is the field-wise \<^verbatim>\<open>operator==\<close>.
\<close>

datatype VideoFillMode = MaintainRatio | Stretch | Zoom

record 'T ShakaRect =
  rect_x :: 'T
  rect_y :: 'T
  rect_w :: 'T
  rect_h :: 'T

text \<open>
  Modelled from the spec: the body of \<^verbatim>\<open>FitVideoToRegion\<close>, which the header only
  declares. The display aspect ratio is \<open>frame.w * sampleAspectRatio / frame.h\<close> in
  rational arithmetic, with the sample aspect ratio \<open>(0,0)\<close> read as \<open>(1,1)\<close>.
\<close>

definition display_aspect_ratio ::
  "32 word ShakaRect \<Rightarrow> 32 word Rational \<Rightarrow> failure + 32 word Rational" where
  "display_aspect_ratio frame sample_aspect_ratio =
     (let sar = (if equals sample_aspect_ratio canonical_zero
                 then \<lparr>numerator = 1, denominator = 1\<rparr> else sample_aspect_ratio)
      in case number_times (rect_w frame) sar of
           Inl e \<Rightarrow> Inl e
         | Inr r \<Rightarrow> divide_number r (rect_h frame))"

text \<open>
  Modelled from the spec: the size with the given aspect ratio that is the largest one
  inside a \<open>bw\<close> by \<open>bh\<close> region (\<open>cover = False\<close>) or the smallest one covering it
  (\<open>cover = True\<close>). One side equals the region's; the other is the truncated quotient.
  A zero ratio or a zero-area region gives the size \<open>(0, 0)\<close>, with no division.
\<close>

definition scaled_size ::
  "bool \<Rightarrow> 32 word Rational \<Rightarrow> 32 word \<Rightarrow> 32 word \<Rightarrow> failure + (32 word \<times> 32 word)" where
  "scaled_size cover ratio bw bh =
     (if \<not> to_bool ratio \<or> bw = 0 \<or> bh = 0 then Inr (0, 0)
      else
        case number_divide bw ratio of Inl e \<Rightarrow> Inl e | Inr hr \<Rightarrow>
        (case truncate_rational hr of Inl e \<Rightarrow> Inl e | Inr h_at_w \<Rightarrow>
        (case times_number ratio bh of Inl e \<Rightarrow> Inl e | Inr wr \<Rightarrow>
        (case truncate_rational wr of Inl e \<Rightarrow> Inl e | Inr w_at_h \<Rightarrow>
           if (if cover then bh \<le> h_at_w else h_at_w \<le> bh)
           then Inr (bw, h_at_w) else Inr (w_at_h, bh)))))"

text \<open>
  Modelled from the spec: the part \<open>visible\<close> of \<open>scaled\<close> of a length \<open>len\<close>, truncated
  (the source pixels that stay when a scaled frame of extent \<open>scaled\<close> shows through a
  region of extent \<open>visible\<close>); nothing is visible of an empty extent.
\<close>

definition visible_part :: "32 word \<Rightarrow> 32 word \<Rightarrow> 32 word \<Rightarrow> failure + 32 word" where
  "visible_part len visible scaled =
     (if scaled = 0 then Inr 0
      else case Rational2 visible scaled of Inl e \<Rightarrow> Inl e | Inr f \<Rightarrow>
           (case times_number f len of Inl e \<Rightarrow> Inl e | Inr r \<Rightarrow>
              if to_bool r then truncate_rational r else Inr 0))"

text \<open>
  Modelled from the spec: \<^verbatim>\<open>FitVideoToRegion(frame, bounds, sample_aspect_ratio, mode,
  &src, &dest)\<close>, returning \<open>(src, dest)\<close>.
  \<^item> Stretch: \<open>dest = bounds\<close> and \<open>src = frame\<close>; the aspect ratio plays no part.
  \<^item> MaintainRatio: the frame is scaled to the largest size inside \<open>bounds\<close> with the
    display aspect ratio; \<open>src = frame\<close>; \<open>dest\<close> is centred in \<open>bounds\<close>.
  \<^item> Zoom: the frame is scaled to the smallest size covering \<open>bounds\<close> with the display
    aspect ratio; the excess is cropped from \<open>src\<close>, centred; \<open>dest = bounds\<close>.
\<close>

definition FitVideoToRegion ::
  "32 word ShakaRect \<Rightarrow> 32 word ShakaRect \<Rightarrow> 32 word Rational \<Rightarrow> VideoFillMode
     \<Rightarrow> failure + (32 word ShakaRect \<times> 32 word ShakaRect)" where
  "FitVideoToRegion frame bounds sample_aspect_ratio mode =
     (case mode of
        Stretch \<Rightarrow> Inr (frame, bounds)
      | MaintainRatio \<Rightarrow>
          (case display_aspect_ratio frame sample_aspect_ratio of Inl e \<Rightarrow> Inl e | Inr ratio \<Rightarrow>
          (case scaled_size False ratio (rect_w bounds) (rect_h bounds) of
             Inl e \<Rightarrow> Inl e
           | Inr (dw, dh) \<Rightarrow>
               Inr (frame,
                    \<lparr>rect_x = rect_x bounds + (rect_w bounds - dw) div 2,
                     rect_y = rect_y bounds + (rect_h bounds - dh) div 2,
                     rect_w = dw, rect_h = dh\<rparr>)))
      | Zoom \<Rightarrow>
          (case display_aspect_ratio frame sample_aspect_ratio of Inl e \<Rightarrow> Inl e | Inr ratio \<Rightarrow>
          (case scaled_size True ratio (rect_w bounds) (rect_h bounds) of
             Inl e \<Rightarrow> Inl e
           | Inr (zw, zh) \<Rightarrow>
          (case visible_part (rect_w frame) (rect_w bounds) zw of Inl e \<Rightarrow> Inl e | Inr sw \<Rightarrow>
          (case visible_part (rect_h frame) (rect_h bounds) zh of Inl e \<Rightarrow> Inl e | Inr sh \<Rightarrow>
               Inr (\<lparr>rect_x = rect_x frame + (rect_w frame - sw) div 2,
                     rect_y = rect_y frame + (rect_h frame - sh) div 2,
                     rect_w = sw, rect_h = sh\<rparr>,
                    bounds))))))"

section \<open>Player states\<close>

text \<open>
  The header \<^verbatim>\<open>media_player.h\<close> (guard \<^verbatim>\<open>SHAKA_EMBEDDED_MEDIA_MEDIA_PLAYER_H_\<close>,
  \<^verbatim>\<open>src/unnamed/part_001\<close>).
  \<^verbatim>\<open>enum class VideoReadyState : int8_t\<close> with its enumerator values, read as signed
  8-bit integers, and the comparison \<^verbatim>\<open><\<close> of two enumerators, which compares the
  underlying values.
\<close>

datatype VideoReadyState =
  NotAttached | HaveNothing | HaveMetadata | HaveCurrentData | HaveFutureData | HaveEnoughData

fun underlying_value :: "VideoReadyState \<Rightarrow> 8 word" where
  "underlying_value NotAttached = - 1"
| "underlying_value HaveNothing = 0"
| "underlying_value HaveMetadata = 1"
| "underlying_value HaveCurrentData = 2"
| "underlying_value HaveFutureData = 3"
| "underlying_value HaveEnoughData = 4"

definition ready_state_less :: "VideoReadyState \<Rightarrow> VideoReadyState \<Rightarrow> bool" where
  "ready_state_less a b = (sint (underlying_value a) < sint (underlying_value b))"

text \<open>\<^verbatim>\<open>enum class VideoPlaybackState : uint8_t\<close>.\<close>

datatype VideoPlaybackState =
  Detached | Initializing | Paused | Seeking | Buffering | WaitingForKey | Playing | Ended
  | Errored

section \<open>Clients and the client list\<close>

text \<open>
  A \<^verbatim>\<open>Client*\<close> is an address, a natural number. \<open>ClientEvent\<close> has one constructor
  for each virtual method of \<^verbatim>\<open>MediaPlayer::Client\<close>, with the method's arguments:
  a track pointer is an address, \<open>'d\<close> stands for \<^verbatim>\<open>double\<close>.
\<close>

type_synonym Client = nat

datatype 'd ClientEvent =
    OnAddAudioTrack nat
  | OnRemoveAudioTrack nat
  | OnAddVideoTrack nat
  | OnRemoveVideoTrack nat
  | OnAddTextTrack nat
  | OnRemoveTextTrack nat
  | OnReadyStateChanged VideoReadyState VideoReadyState
  | OnPlaybackStateChanged VideoPlaybackState VideoPlaybackState
  | OnPlaybackRateChanged 'd 'd
  | OnError string
  | OnAttachMse
  | OnAttachSource
  | OnDetach
  | OnPlay
  | OnSeeking
  | OnWaitingForKey
  | OnUserEvent string nat

text \<open>
  Modelled from the spec: the implementation of \<^verbatim>\<open>MediaPlayer::ClientList\<close>, which the
  header hides behind \<^verbatim>\<open>class Impl\<close>. The list owns the registered clients in
  registration order; \<open>calls\<close> is the trace of the callbacks made so far, oldest first,
  each with the client it was made on.
\<close>

record 'd ClientList =
  clients :: "Client list"
  calls :: "(Client \<times> 'd ClientEvent) list"

text \<open>Modelled from the spec: a new \<^verbatim>\<open>ClientList()\<close> has no client registered.\<close>

definition ClientList_new :: "'d ClientList" where
  "ClientList_new = \<lparr>clients = [], calls = []\<rparr>"

text \<open>Modelled from the spec: adding a registered client is a no-op, a new one goes last.\<close>

definition AddClient :: "Client \<Rightarrow> 'd ClientList \<Rightarrow> 'd ClientList" where
  "AddClient client l =
     (if client \<in> set (clients l) then l else l\<lparr>clients := clients l @ [client]\<rparr>)"

text \<open>Modelled from the spec: removing takes the client's registration out of the list.\<close>

definition RemoveClient :: "Client \<Rightarrow> 'd ClientList \<Rightarrow> 'd ClientList" where
  "RemoveClient client l = l\<lparr>clients := filter (\<lambda>c. c \<noteq> client) (clients l)\<rparr>"

text \<open>
  Modelled from the spec: every \<^verbatim>\<open>On*\<close> method of the list takes a snapshot of the
  registered clients and calls the same method on each of them, front to back.
\<close>

fun fan_out ::
  "'d ClientEvent \<Rightarrow> Client list \<Rightarrow> (Client \<times> 'd ClientEvent) list
     \<Rightarrow> (Client \<times> 'd ClientEvent) list" where
  "fan_out ev [] trace = trace"
| "fan_out ev (c # snapshot) trace = fan_out ev snapshot (trace @ [(c, ev)])"

definition On :: "'d ClientEvent \<Rightarrow> 'd ClientList \<Rightarrow> 'd ClientList" where
  "On ev l = l\<lparr>calls := fan_out ev (clients l) (calls l)\<rparr>"

text \<open>A sequence of calls on a client list, run from left to right.\<close>

datatype 'd Call = CallAddClient Client | CallRemoveClient Client | CallOn "'d ClientEvent"

fun run_call :: "'d Call \<Rightarrow> 'd ClientList \<Rightarrow> 'd ClientList" where
  "run_call (CallAddClient c) l = AddClient c l"
| "run_call (CallRemoveClient c) l = RemoveClient c l"
| "run_call (CallOn ev) l = On ev l"

fun run_calls :: "'d Call list \<Rightarrow> 'd ClientList \<Rightarrow> 'd ClientList" where
  "run_calls [] l = l"
| "run_calls (k # ks) l = run_calls ks (run_call k l)"

section \<open>The gcd loop and the reductions compute what they stand for\<close>

lemma Rational_gcd_unat: "unat (Rational_gcd a b) = gcd (unat a) (unat b)"
proof (induction a b rule: Rational_gcd.induct)
  case (1 a b)
  show ?case
  proof (cases "b = 0")
    case True
    then show ?thesis by (simp add: Rational_gcd.simps)
  next
    case False
    then have "unat (Rational_gcd a b) = gcd (unat b) (unat a mod unat b)"
      using 1 by (simp add: Rational_gcd.simps [of a b] unat_mod)
    then show ?thesis by (metis gcd_red_nat)
  qed
qed

lemma unat_numeric_limits_max:
  "unat (numeric_limits_max :: 'a::len word) = 2 ^ LENGTH('a) - 1"
  by (simp add: numeric_limits_max_def unsigned_minus_1_eq_mask mask_eq_exp_minus_1)

lemma overflow_check:
  fixes n1 n2 :: "'a::len word"
  assumes "n1 \<noteq> 0"
  shows "(n2 \<le> numeric_limits_max div n1) = (unat n1 * unat n2 < 2 ^ LENGTH('a))"
proof -
  have pos: "0 < unat n1" using assms by (simp add: unat_gt_0)
  have "(n2 \<le> numeric_limits_max div n1) = (unat n2 \<le> (2 ^ LENGTH('a) - 1) div unat n1)"
    by (simp add: word_le_nat_alt unat_div unat_numeric_limits_max)
  also have "\<dots> = (unat n2 * unat n1 \<le> 2 ^ LENGTH('a) - 1)"
    using pos by (simp add: less_eq_div_iff_mult_less_eq)
  also have "\<dots> = (unat n1 * unat n2 < 2 ^ LENGTH('a))"
  proof -
    have le_pred: "\<And>k m::nat. 0 < k \<Longrightarrow> (m \<le> k - 1) = (m < k)" by arith
    have "(0::nat) < 2 ^ LENGTH('a)" by simp
    from le_pred [OF this] show ?thesis by (simp only: mult.commute)
  qed
  finally show ?thesis .
qed

lemma reduce_nonzero:
  fixes a b :: "'a::len word"
  assumes "a \<noteq> 0" "b \<noteq> 0"
  shows "\<exists>a' b'. reduce a b = Inr (a', b') \<and> a' \<noteq> 0 \<and> b' \<noteq> 0
           \<and> unat a' = unat a div gcd (unat a) (unat b)
           \<and> unat b' = unat b div gcd (unat a) (unat b)"
proof -
  let ?g = "Rational_gcd a b"
  have ua: "0 < unat a" and ub: "0 < unat b" using assms by (simp_all add: unat_gt_0)
  have g: "unat ?g = gcd (unat a) (unat b)" by (rule Rational_gcd_unat)
  have gpos: "0 < gcd (unat a) (unat b)" using ua by simp
  then have gnz: "?g \<noteq> 0" using g by (metis unat_gt_0)
  have r: "reduce a b = Inr (a div ?g, b div ?g)" using gnz by (simp add: reduce_def Let_def)
  have da: "unat (a div ?g) = unat a div gcd (unat a) (unat b)" by (simp add: unat_div g)
  have db: "unat (b div ?g) = unat b div gcd (unat a) (unat b)" by (simp add: unat_div g)
  have "0 < unat a div gcd (unat a) (unat b)"
    using ua gpos by (simp add: div_greater_zero_iff gcd_le1_nat)
  then have nza: "a div ?g \<noteq> 0" using da by (metis unat_gt_0)
  have "0 < unat b div gcd (unat a) (unat b)"
    using ub gpos by (simp add: div_greater_zero_iff gcd_le2_nat)
  then have nzb: "b div ?g \<noteq> 0" using db by (metis unat_gt_0)
  show ?thesis using r nza nzb da db by blast
qed


lemma reduce_nat_props:
  assumes "0 < a" "0 < b" "reduce_nat a b = (a', b')"
  shows "0 < a'" "0 < b'" "coprime a' b'" "a' dvd a" "b' dvd b" "a' * b = a * b'"
proof -
  let ?g = "gcd a b"
  have a': "a' = a div ?g" and b': "b' = b div ?g"
    using assms(3) by (simp_all add: reduce_nat_def)
  have ga: "a' * ?g = a" and gb: "b' * ?g = b"
    by (simp_all add: a' b')
  show "a' dvd a" using ga by (metis dvd_triv_left)
  show "b' dvd b" using gb by (metis dvd_triv_left)
  show "0 < a'" using ga assms(1) by (metis gr0I mult_zero_left less_numeral_extra(3))
  show "0 < b'" using gb assms(2) by (metis gr0I mult_zero_left less_numeral_extra(3))
  show "coprime a' b'" unfolding a' b' using assms(1) by (intro div_gcd_coprime) simp
  have "a' * b = a' * (b' * ?g)" by (simp only: gb)
  also have "\<dots> = (a' * ?g) * b'" by (simp only: mult_ac)
  also have "\<dots> = a * b'" by (simp only: ga)
  finally show "a' * b = a * b'" .
qed

lemma coprime_dvd_both:
  fixes a b a' b' :: nat
  assumes "coprime a b" "a' dvd a" "b' dvd b"
  shows "coprime a' b'"
  using assms by (meson coprime_divisors)

lemma residues_props:
  assumes pos: "0 < a" "0 < b" "0 < c" "0 < d"
    and r: "residues a b c d = (n1, n2, d1, d2)"
  shows "0 < n1" "0 < n2" "0 < d1" "0 < d2"
    "coprime (n1 * n2) (d1 * d2)"
    "n1 * n2 * (b * d) = a * c * (d1 * d2)"
proof -
  obtain a1 b1 where s1: "reduce_nat a b = (a1, b1)" by (cases "reduce_nat a b")
  obtain a2 e1 where s2: "reduce_nat a1 d = (a2, e1)" by (cases "reduce_nat a1 d")
  obtain c1 b2 where s3: "reduce_nat c b1 = (c1, b2)" by (cases "reduce_nat c b1")
  obtain c2 e2 where s4: "reduce_nat c1 e1 = (c2, e2)" by (cases "reduce_nat c1 e1")
  have eq: "n1 = a2" "n2 = c2" "d1 = b2" "d2 = e2"
    using r by (simp_all add: residues_def s1 s2 s3 s4)
  note p1 = reduce_nat_props [OF pos(1) pos(2) s1]
  note p2 = reduce_nat_props [OF p1(1) pos(4) s2]
  note p3 = reduce_nat_props [OF pos(3) p1(2) s3]
  note p4 = reduce_nat_props [OF p3(1) p2(2) s4]
  show "0 < n1" "0 < n2" "0 < d1" "0 < d2"
    using p2(1) p4(1) p3(2) p4(2) by (simp_all add: eq)
  have c11: "coprime a2 b2" using p1(3) p2(4) p3(5) by (rule coprime_dvd_both)
  have c12: "coprime a2 e2" using p2(3) dvd_refl p4(5) by (rule coprime_dvd_both)
  have c21: "coprime c2 b2" using p3(3) p4(4) dvd_refl by (rule coprime_dvd_both)
  have c22: "coprime c2 e2" by (rule p4(3))
  show "coprime (n1 * n2) (d1 * d2)"
    using c11 c12 c21 c22 by (simp add: eq)
  have "a2 * c2 * (b * d) * (b1 * e1) = (a2 * d) * b * (c2 * e1) * b1"
    by (simp only: mult_ac)
  also have "\<dots> = (a1 * e1) * b * (c1 * e2) * b1" by (simp only: p2(6) p4(6))
  also have "\<dots> = (a1 * b) * (c1 * b1) * (e1 * e2)" by (simp only: mult_ac)
  also have "\<dots> = (a * b1) * (c * b2) * (e1 * e2)" by (simp only: p1(6) p3(6))
  also have "\<dots> = a * c * (b2 * e2) * (b1 * e1)" by (simp only: mult_ac)
  finally have "a2 * c2 * (b * d) * (b1 * e1) = a * c * (b2 * e2) * (b1 * e1)" .
  moreover have "0 < b1 * e1" using p1(2) p2(2) by simp
  ultimately have "a2 * c2 * (b * d) = a * c * (b2 * e2)" by simp
  then show "n1 * n2 * (b * d) = a * c * (d1 * d2)" by (simp only: eq)
qed

lemma reduced_fraction_unique:
  fixes a b c d :: nat
  assumes "coprime a b" "coprime c d" "a * d = c * b" "0 < b" "0 < d"
  shows "a = c \<and> b = d"
proof -
  have "b dvd a * d" using assms(3) by (metis dvd_triv_right)
  then have bd: "b dvd d" using assms(1) by (metis coprime_commute coprime_dvd_mult_right_iff)
  have "d dvd c * b" using assms(3) by (metis dvd_triv_right)
  then have db: "d dvd b" using assms(2) by (metis coprime_commute coprime_dvd_mult_right_iff)
  have "b = d" using bd db by (rule dvd_antisym)
  then show ?thesis using assms(3) assms(4) by simp
qed

lemma reduce_unat:
  fixes a b :: "'a::len word"
  assumes "a \<noteq> 0" "b \<noteq> 0"
  shows "\<exists>a' b'. reduce a b = Inr (a', b') \<and> a' \<noteq> 0 \<and> b' \<noteq> 0
           \<and> reduce_nat (unat a) (unat b) = (unat a', unat b')"
  using reduce_nonzero [OF assms] by (auto simp: reduce_nat_def)

lemma reduce_operands_unat:
  fixes N1 N2 D1 D2 :: "'a::len word"
  assumes nz: "N1 \<noteq> 0" "N2 \<noteq> 0" "D1 \<noteq> 0" "D2 \<noteq> 0"
  shows "\<exists>n1 n2 d1 d2. reduce_operands N1 N2 D1 D2 = Inr (n1, n2, d1, d2)
           \<and> n1 \<noteq> 0 \<and> n2 \<noteq> 0 \<and> d1 \<noteq> 0 \<and> d2 \<noteq> 0
           \<and> residues (unat N1) (unat D1) (unat N2) (unat D2)
               = (unat n1, unat n2, unat d1, unat d2)"
proof -
  obtain a1 b1 where s1: "reduce N1 D1 = Inr (a1, b1)" "a1 \<noteq> 0" "b1 \<noteq> 0"
      "reduce_nat (unat N1) (unat D1) = (unat a1, unat b1)"
    using reduce_unat [OF nz(1) nz(3)] by blast
  obtain a2 e1 where s2: "reduce a1 D2 = Inr (a2, e1)" "a2 \<noteq> 0" "e1 \<noteq> 0"
      "reduce_nat (unat a1) (unat D2) = (unat a2, unat e1)"
    using reduce_unat [OF s1(2) nz(4)] by blast
  obtain c1 b2 where s3: "reduce N2 b1 = Inr (c1, b2)" "c1 \<noteq> 0" "b2 \<noteq> 0"
      "reduce_nat (unat N2) (unat b1) = (unat c1, unat b2)"
    using reduce_unat [OF nz(2) s1(3)] by blast
  obtain c2 e2 where s4: "reduce c1 e1 = Inr (c2, e2)" "c2 \<noteq> 0" "e2 \<noteq> 0"
      "reduce_nat (unat c1) (unat e1) = (unat c2, unat e2)"
    using reduce_unat [OF s3(2) s2(3)] by blast
  have "reduce_operands N1 N2 D1 D2 = Inr (a2, c2, b2, e2)"
    by (simp add: reduce_operands_def s1(1) s2(1) s3(1) s4(1))
  moreover have "residues (unat N1) (unat D1) (unat N2) (unat D2)
                   = (unat a2, unat c2, unat b2, unat e2)"
    by (simp add: residues_def s1(4) s2(4) s3(4) s4(4))
  ultimately show ?thesis using s2(2) s4(2) s3(3) s4(3) by blast
qed

lemma Rational4_after_reduction:
  fixes N1 N2 D1 D2 :: "'a::len word"
  assumes nz: "N1 \<noteq> 0" "N2 \<noteq> 0" "D1 \<noteq> 0" "D2 \<noteq> 0"
    and ro: "reduce_operands N1 N2 D1 D2 = Inr (n1, n2, d1, d2)"
  shows "Rational4 N1 N2 D1 D2 =
           (if unat n1 * unat n2 < 2 ^ LENGTH('a) \<and> unat d1 * unat d2 < 2 ^ LENGTH('a)
            then Inr \<lparr>numerator = n1 * n2, denominator = d1 * d2\<rparr>
            else Inl AssertionFailed)"
proof -
  from reduce_operands_unat [OF nz] ro
  have nz': "n1 \<noteq> 0" "n2 \<noteq> 0" "d1 \<noteq> 0" "d2 \<noteq> 0"
    and res: "residues (unat N1) (unat D1) (unat N2) (unat D2)
               = (unat n1, unat n2, unat d1, unat d2)"
    by auto
  have pos: "0 < unat N1" "0 < unat D1" "0 < unat N2" "0 < unat D2"
    using nz by (simp_all add: unat_gt_0)
  have cop: "coprime (unat n1 * unat n2) (unat d1 * unat d2)"
    by (rule residues_props(5) [OF pos res])
  have unfold: "Rational4 N1 N2 D1 D2 =
      (if \<not> (n2 \<le> numeric_limits_max div n1) then Inl AssertionFailed
       else if \<not> (d2 \<le> numeric_limits_max div d1) then Inl AssertionFailed
       else if Rational_gcd (n1 * n2) (d1 * d2) \<noteq> 1 then Inl AssertionFailed
       else Inr \<lparr>numerator = n1 * n2, denominator = d1 * d2\<rparr>)"
    using nz nz' by (simp add: Rational4_def ro)
  show ?thesis
  proof (cases "unat n1 * unat n2 < 2 ^ LENGTH('a) \<and> unat d1 * unat d2 < 2 ^ LENGTH('a)")
    case True
    then have un: "unat (n1 * n2) = unat n1 * unat n2"
      and ud: "unat (d1 * d2) = unat d1 * unat d2"
      by (simp_all add: unat_mult_lem)
    have "unat (Rational_gcd (n1 * n2) (d1 * d2)) = 1"
      using cop by (simp add: Rational_gcd_unat un ud)
    then have "Rational_gcd (n1 * n2) (d1 * d2) = 1"
      by (metis unat_1 word_unat_eq_iff)
    then show ?thesis
      using True by (simp add: unfold overflow_check [OF nz'(1)] overflow_check [OF nz'(3)])
  next
    case False
    then show ?thesis
      by (auto simp add: unfold overflow_check [OF nz'(1)] overflow_check [OF nz'(3)])
  qed
qed


lemma Rational4_zero:
  "num1 = 0 \<or> num2 = 0 \<or> den1 = 0 \<or> den2 = 0
     \<Longrightarrow> Rational4 num1 num2 den1 den2 = Inr canonical_zero"
  by (simp add: Rational4_def canonical_zero_def)

lemma Rational4_nonzero_result:
  fixes N1 N2 D1 D2 :: "'a::len word"
  assumes nz: "N1 \<noteq> 0" "N2 \<noteq> 0" "D1 \<noteq> 0" "D2 \<noteq> 0"
    and res: "Rational4 N1 N2 D1 D2 = Inr r"
  shows "0 < unat (numerator r)" "0 < unat (denominator r)"
    "coprime (unat (numerator r)) (unat (denominator r))"
    "unat (numerator r) * (unat D1 * unat D2) = unat N1 * unat N2 * unat (denominator r)"
proof -
  obtain n1 n2 d1 d2 where ro: "reduce_operands N1 N2 D1 D2 = Inr (n1, n2, d1, d2)"
    and rs: "residues (unat N1) (unat D1) (unat N2) (unat D2)
               = (unat n1, unat n2, unat d1, unat d2)"
    using reduce_operands_unat [OF nz] by blast
  have pos: "0 < unat N1" "0 < unat D1" "0 < unat N2" "0 < unat D2"
    using nz by (simp_all add: unat_gt_0)
  note rp = residues_props [OF pos rs]
  have fits: "unat n1 * unat n2 < 2 ^ LENGTH('a) \<and> unat d1 * unat d2 < 2 ^ LENGTH('a)"
    and r: "r = \<lparr>numerator = n1 * n2, denominator = d1 * d2\<rparr>"
    using res Rational4_after_reduction [OF nz ro] by (auto split: if_splits)
  have un: "unat (numerator r) = unat n1 * unat n2"
    and ud: "unat (denominator r) = unat d1 * unat d2"
    using fits by (simp_all add: r unat_mult_lem)
  show "0 < unat (numerator r)" using rp(1) rp(2) by (simp add: un)
  show "0 < unat (denominator r)" using rp(3) rp(4) by (simp add: ud)
  show "coprime (unat (numerator r)) (unat (denominator r))" using rp(5) by (simp add: un ud)
  show "unat (numerator r) * (unat D1 * unat D2) = unat N1 * unat N2 * unat (denominator r)"
    using rp(6) by (simp add: un ud)
qed

lemma reduced_or_zero_iff:
  "reduced_or_zero r =
     (coprime (unat (numerator r)) (unat (denominator r))
      \<or> (numerator r = 0 \<and> denominator r = 0))"
proof -
  have "(Rational_gcd (numerator r) (denominator r) = 1)
          = (unat (Rational_gcd (numerator r) (denominator r)) = 1)"
    by (metis unat_1 word_unat_eq_iff)
  then show ?thesis
    by (simp add: reduced_or_zero_def equals_def canonical_zero_def Rational_gcd_unat
        coprime_iff_gcd_eq_1)
qed

lemma Rational4_reduced_or_zero:
  assumes "Rational4 N1 N2 D1 D2 = Inr r"
  shows "reduced_or_zero r"
proof (cases "N1 = 0 \<or> N2 = 0 \<or> D1 = 0 \<or> D2 = 0")
  case True
  then have "r = canonical_zero" using assms Rational4_zero [OF True] by simp
  then show ?thesis by (simp add: reduced_or_zero_iff canonical_zero_def)
next
  case False
  then have "coprime (unat (numerator r)) (unat (denominator r))"
    using Rational4_nonzero_result(3) [OF _ _ _ _ assms] by blast
  then show ?thesis by (simp add: reduced_or_zero_iff)
qed

lemma residues_unit: "residues a b 1 1 = (a div gcd a b, 1, b div gcd a b, 1)"
  by (simp add: residues_def reduce_nat_def)

lemma Rational2_total:
  fixes n d :: "'a::len word"
  shows "\<exists>r. Rational2 n d = Inr r"
proof (cases "n = 0 \<or> d = 0")
  case True
  then show ?thesis by (simp add: Rational2_def Rational4_zero)
next
  case False
  then have nz: "n \<noteq> 0" "1 \<noteq> (0::'a word)" "d \<noteq> 0" "1 \<noteq> (0::'a word)" by simp_all
  obtain n1 n2 d1 d2 where ro: "reduce_operands n 1 d 1 = Inr (n1, n2, d1, d2)"
    and rs: "residues (unat n) (unat d) (unat (1::'a word)) (unat (1::'a word))
               = (unat n1, unat n2, unat d1, unat d2)"
    using reduce_operands_unat [OF nz] by blast
  have one: "unat n2 = 1" "unat d2 = 1" using rs residues_unit [of "unat n" "unat d"] by simp_all
  have "unat n1 * unat n2 < 2 ^ LENGTH('a) \<and> unat d1 * unat d2 < 2 ^ LENGTH('a)"
    by (simp add: one)
  then show ?thesis
    using Rational4_after_reduction [OF nz ro] by (simp add: Rational2_def)
qed

lemma le_numeric_limits_max:
  "(m \<le> unat (numeric_limits_max :: 'a::len word)) = (m < 2 ^ LENGTH('a))"
proof -
  have le_pred: "\<And>k m::nat. 0 < k \<Longrightarrow> (m \<le> k - 1) = (m < k)" by arith
  have "(0::nat) < 2 ^ LENGTH('a)" by simp
  from le_pred [OF this] show ?thesis by (simp only: unat_numeric_limits_max)
qed

lemma round_trip_value:
  fixes rn rd an ad bn bd abn abd bin bid :: nat
  assumes ab: "abn * (ad * bd) = an * bn * abd"
    and bi: "bin * bn = bd * bid"
    and r: "rn * (abd * bid) = abn * bin * rd"
    and pos: "0 < abd" "0 < bid" "0 < bn" "0 < bd"
  shows "rn * ad = an * rd"
proof -
  let ?K = "abd * bid * bd * bn"
  have "rn * ad * ?K = (rn * (abd * bid)) * ad * bd * bn" by (simp only: mult_ac)
  also have "\<dots> = (abn * bin * rd) * ad * bd * bn" by (simp only: r)
  also have "\<dots> = (abn * (ad * bd)) * (bin * bn) * rd" by (simp only: mult_ac)
  also have "\<dots> = (an * bn * abd) * (bd * bid) * rd" by (simp only: ab bi)
  also have "\<dots> = an * rd * ?K" by (simp only: mult_ac)
  finally have "rn * ad * ?K = an * rd * ?K" .
  moreover have "0 < ?K" using pos by simp
  ultimately show ?thesis by simp
qed

section \<open>The client list keeps its clients distinct\<close>

lemma fan_out_trace: "fan_out ev snapshot trace = trace @ map (\<lambda>c. (c, ev)) snapshot"
  by (induction snapshot arbitrary: trace) simp_all

lemma distinct_count_list: "distinct xs \<Longrightarrow> count_list xs x = (if x \<in> set xs then 1 else 0)"
  by (induction xs) auto

lemma AddClient_distinct: "distinct (clients l) \<Longrightarrow> distinct (clients (AddClient c l))"
  by (simp add: AddClient_def)

lemma RemoveClient_distinct: "distinct (clients l) \<Longrightarrow> distinct (clients (RemoveClient c l))"
  by (simp add: RemoveClient_def)

lemma run_call_distinct: "distinct (clients l) \<Longrightarrow> distinct (clients (run_call k l))"
  by (cases k) (simp_all add: AddClient_distinct RemoveClient_distinct On_def)

lemma run_calls_distinct: "distinct (clients l) \<Longrightarrow> distinct (clients (run_calls ks l))"
  by (induction ks arbitrary: l) (simp_all add: run_call_distinct)

section \<open>Claims about the rational numbers\<close>

text \<open>
  Claim C1. Every value returned by the public constructor \<open>Rational(num, den)\<close>, by a
  multiplication or division operator (member or free, by a rational or by a number) or by
  \<open>inverse\<close> is in reduced form (the gcd of its fields, as the code computes it, is 1) or
  is the canonical zero \<open>{0,0}\<close>. The last conjunct says what the invariant means
  arithmetically: the gcd of the two fields read as numbers is 1, or both fields are 0.
\<close>

theorem Rational_results_reduced_or_zero:
  fixes n d k :: "'a::len word" and a b r :: "'a word Rational"
  shows "(Rational2 n d = Inr r \<longrightarrow> reduced_or_zero r)
       \<and> (times_rational a b = Inr r \<longrightarrow> reduced_or_zero r)
       \<and> (times_number a k = Inr r \<longrightarrow> reduced_or_zero r)
       \<and> (divide_rational a b = Inr r \<longrightarrow> reduced_or_zero r)
       \<and> (divide_number a k = Inr r \<longrightarrow> reduced_or_zero r)
       \<and> (number_times k a = Inr r \<longrightarrow> reduced_or_zero r)
       \<and> (number_divide k a = Inr r \<longrightarrow> reduced_or_zero r)
       \<and> (inverse_rational a = Inr r \<longrightarrow> reduced_or_zero r)
       \<and> (reduced_or_zero r =
             (gcd (unat (numerator r)) (unat (denominator r)) = 1
              \<or> (numerator r = 0 \<and> denominator r = 0)))"
proof -
  have ctor: "Rational2 n d = Inr r \<longrightarrow> reduced_or_zero r"
    by (simp add: Rational2_def Rational4_reduced_or_zero)
  have tr: "times_rational a b = Inr r \<longrightarrow> reduced_or_zero r"
    by (simp add: times_rational_def Rational4_reduced_or_zero)
  have tn: "times_number a k = Inr r \<longrightarrow> reduced_or_zero r"
    by (simp add: times_number_def Rational4_reduced_or_zero)
  have dr: "divide_rational a b = Inr r \<longrightarrow> reduced_or_zero r"
    by (simp add: divide_rational_def Rational4_reduced_or_zero)
  have dn: "divide_number a k = Inr r \<longrightarrow> reduced_or_zero r"
    by (simp add: divide_number_def Rational4_reduced_or_zero)
  have nt: "number_times k a = Inr r \<longrightarrow> reduced_or_zero r"
    by (auto simp: number_times_def times_rational_def Rational4_reduced_or_zero
        split: sum.splits)
  have nd: "number_divide k a = Inr r \<longrightarrow> reduced_or_zero r"
    by (auto simp: number_divide_def times_number_def Rational4_reduced_or_zero
        split: sum.splits)
  have inv: "inverse_rational a = Inr r \<longrightarrow> reduced_or_zero r"
    by (simp add: inverse_rational_def Rational2_def Rational4_reduced_or_zero)
  have char: "reduced_or_zero r =
      (gcd (unat (numerator r)) (unat (denominator r)) = 1
       \<or> (numerator r = 0 \<and> denominator r = 0))"
    by (simp add: reduced_or_zero_iff coprime_iff_gcd_eq_1)
  show ?thesis using ctor tr tn dr dn nt nd inv char by blast
qed

text \<open>The invariant at \<open>6/4\<close>, \<open>(3/2) * (4/9)\<close>, \<open>(3/2) / (9/4)\<close> and \<open>(3/2) * 0\<close>, 32 bits wide.\<close>

theorem Rational_results_reduced_or_zero_witness:
  "Rational2 (6::32 word) 4 = Inr \<lparr>numerator = 3, denominator = 2\<rparr>
   \<and> reduced_or_zero \<lparr>numerator = 3::32 word, denominator = 2\<rparr>
   \<and> times_rational \<lparr>numerator = 3::32 word, denominator = 2\<rparr> \<lparr>numerator = 4, denominator = 9\<rparr>
       = Inr \<lparr>numerator = 2, denominator = 3\<rparr>
   \<and> reduced_or_zero \<lparr>numerator = 2::32 word, denominator = 3\<rparr>
   \<and> divide_rational \<lparr>numerator = 3::32 word, denominator = 2\<rparr> \<lparr>numerator = 9, denominator = 4\<rparr>
       = Inr \<lparr>numerator = 2, denominator = 3\<rparr>
   \<and> times_number \<lparr>numerator = 3::32 word, denominator = 2\<rparr> 0 = Inr \<lparr>numerator = 0, denominator = 0\<rparr>
   \<and> reduced_or_zero \<lparr>numerator = 0::32 word, denominator = 0\<rparr>"
proof -
  have c: "Rational2 (6::32 word) 4 = Inr \<lparr>numerator = 3, denominator = 2\<rparr>"
    by code_simp
  have t: "times_rational \<lparr>numerator = 3::32 word, denominator = 2\<rparr> \<lparr>numerator = 4, denominator = 9\<rparr>
       = Inr \<lparr>numerator = 2, denominator = 3\<rparr>"
    by code_simp
  have d: "divide_rational \<lparr>numerator = 3::32 word, denominator = 2\<rparr> \<lparr>numerator = 9, denominator = 4\<rparr>
       = Inr \<lparr>numerator = 2, denominator = 3\<rparr>"
    by code_simp
  have z: "times_number \<lparr>numerator = 3::32 word, denominator = 2\<rparr> 0 = Inr \<lparr>numerator = 0, denominator = 0\<rparr>"
    by code_simp
  note th = Rational_results_reduced_or_zero
  from th [of 6 4 "\<lparr>numerator = 3::32 word, denominator = 2\<rparr>"] c
  have r1: "reduced_or_zero \<lparr>numerator = 3::32 word, denominator = 2\<rparr>" by blast
  from th [of _ _ "\<lparr>numerator = 2::32 word, denominator = 3\<rparr>"
      "\<lparr>numerator = 3::32 word, denominator = 2\<rparr>" "\<lparr>numerator = 4, denominator = 9\<rparr>"] t
  have r2: "reduced_or_zero \<lparr>numerator = 2::32 word, denominator = 3\<rparr>" by blast
  from th [of _ _ "\<lparr>numerator = 0::32 word, denominator = 0\<rparr>"
      "\<lparr>numerator = 3::32 word, denominator = 2\<rparr>" _ 0] z
  have r3: "reduced_or_zero \<lparr>numerator = 0::32 word, denominator = 0\<rparr>" by blast
  show ?thesis using c t d z r1 r2 r3 by simp
qed

text \<open>
  At an unsigned \<open>T\<close> the overflow check is exact. With no operand zero, the four
  reductions leave residues \<open>n1, n2, d1, d2\<close>. If both products \<open>n1 * n2\<close> and \<open>d1 * d2\<close> are within the range of the integer type,
  the construction returns exactly these products; if one of them exceeds
  \<open>numeric_limits<T>::max()\<close>, the construction stops with a failed assertion. It never
  returns a wrapped product. Every constructor call and every operator is one call of
  this constructor.
\<close>

lemma unsigned_overflow_is_fatal:
  fixes num1 num2 den1 den2 :: "'a::len word"
  assumes "num1 \<noteq> 0" "num2 \<noteq> 0" "den1 \<noteq> 0" "den2 \<noteq> 0"
  shows "\<exists>n1 n2 d1 d2.
           reduce_operands num1 num2 den1 den2 = Inr (n1, n2, d1, d2)
         \<and> (if unat n1 * unat n2 \<le> unat (numeric_limits_max :: 'a word)
               \<and> unat d1 * unat d2 \<le> unat (numeric_limits_max :: 'a word)
             then \<exists>r. Rational4 num1 num2 den1 den2 = Inr r
                    \<and> unat (numerator r) = unat n1 * unat n2
                    \<and> unat (denominator r) = unat d1 * unat d2
             else Rational4 num1 num2 den1 den2 = Inl AssertionFailed)"
proof -
  obtain n1 n2 d1 d2 where ro: "reduce_operands num1 num2 den1 den2 = Inr (n1, n2, d1, d2)"
    using reduce_operands_unat [OF assms] by blast
  have le_pred: "\<And>k m::nat. 0 < k \<Longrightarrow> (m \<le> k - 1) = (m < k)" by arith
  have "(0::nat) < 2 ^ LENGTH('a)" by simp
  from le_pred [OF this]
  have range: "\<And>m. (m \<le> unat (numeric_limits_max :: 'a word)) = (m < 2 ^ LENGTH('a))"
    by (simp only: unat_numeric_limits_max)
  have r4: "Rational4 num1 num2 den1 den2 =
      (if unat n1 * unat n2 < 2 ^ LENGTH('a) \<and> unat d1 * unat d2 < 2 ^ LENGTH('a)
       then Inr \<lparr>numerator = n1 * n2, denominator = d1 * d2\<rparr>
       else Inl AssertionFailed)"
    by (rule Rational4_after_reduction [OF assms ro])
  have fit: "\<And>x y :: 'a word. unat x * unat y < 2 ^ LENGTH('a) \<Longrightarrow> unat (x * y) = unat x * unat y"
    by (simp add: unat_mult_lem)
  have "if unat n1 * unat n2 < 2 ^ LENGTH('a) \<and> unat d1 * unat d2 < 2 ^ LENGTH('a)
        then \<exists>r. Rational4 num1 num2 den1 den2 = Inr r
               \<and> unat (numerator r) = unat n1 * unat n2
               \<and> unat (denominator r) = unat d1 * unat d2
        else Rational4 num1 num2 den1 den2 = Inl AssertionFailed"
    unfolding r4 by (auto simp: fit)
  then show ?thesis using ro by (simp add: range)
qed

text \<open>
  \<open>(65536/1) * (65536/1)\<close> on 32 bits: the product \<open>2 ^ 32\<close> would wrap to 0, and the
  assertion fails instead.
\<close>

lemma unsigned_overflow_is_fatal_example:
  "reduce_operands (65536::32 word) 65536 1 1 = Inr (65536, 65536, 1, 1)
   \<and> unat (numeric_limits_max :: 32 word) < unat (65536::32 word) * unat (65536::32 word)
   \<and> Rational4 (65536::32 word) 65536 1 1 = Inl AssertionFailed
   \<and> (65536::32 word) * 65536 = 0"
proof -
  have ro: "reduce_operands (65536::32 word) 65536 1 1 = Inr (65536, 65536, 1, 1)"
    by code_simp
  have big: "unat (numeric_limits_max :: 32 word) < unat (65536::32 word) * unat (65536::32 word)"
    by (simp add: unat_numeric_limits_max)
  have nz: "(65536::32 word) \<noteq> 0" "(1::32 word) \<noteq> 0" by simp_all
  from unsigned_overflow_is_fatal [OF nz(1) nz(1) nz(2) nz(2)] ro big
  have "Rational4 (65536::32 word) 65536 1 1 = Inl AssertionFailed"
    by (auto split: if_splits)
  then show ?thesis using ro big by simp
qed

lemma gcd_int_examples:
  "gcd_int 65536 1 = 1" "gcd_int (- 65536) 1 = 1" "gcd_int 1 1 = 1" "gcd_int 0 1 = 1"
  by (simp_all add: gcd_int.simps c_mod_def)

text \<open>
  Claim C3 says that a product of residues out of the type's range always stops the
  operation with a failed assertion. At the signed type \<open>int\<close> it does not:
  \<^verbatim>\<open>Rational<int>(65536, 1) * (-65536)\<close> constructs \<open>65536/1\<close>, the reductions leave
  \<open>65536, -65536, 1, 1\<close>, both assertions hold (\<open>INT_MAX / 65536 = 32767 \<ge> -65536\<close> and
  \<open>INT_MAX / 1 \<ge> 1\<close>) though the product \<open>- 2 ^ 32\<close> is below the least \<open>int\<close>, the
  multiplication wraps to 0, and \<open>0/1\<close> is returned. The check \<open>max / num1 >= num2\<close>
  bounds the product only when \<open>num2\<close> is not negative.
\<close>

theorem signed_overflow_passes_the_assertions:
  "Rational2_int 65536 1 = Inr \<lparr>numerator = 65536, denominator = 1\<rparr>
   \<and> reduce_operands_int 65536 (- 65536) 1 1 = Inr (65536, - 65536, 1, 1)
   \<and> - 65536 \<le> c_div INT_MAX 65536
   \<and> 1 \<le> c_div INT_MAX 1
   \<and> 65536 * (- 65536) < - INT_MAX - 1
   \<and> times_number_int \<lparr>numerator = 65536, denominator = 1\<rparr> (- 65536)
       = Inr \<lparr>numerator = 0, denominator = 1\<rparr>"
proof -
  note g = gcd_int_examples
  have r1: "reduce_int 65536 1 = Inr (65536, 1)" "reduce_int (- 65536) 1 = Inr (- 65536, 1)"
    "reduce_int 1 1 = Inr (1, 1)"
    by (simp_all add: reduce_int_def g c_div_def wrap_int_def)
  have ro: "reduce_operands_int 65536 (- 65536) 1 1 = Inr (65536, - 65536, 1, 1)"
    "reduce_operands_int 65536 1 1 1 = Inr (65536, 1, 1, 1)"
    by (simp_all add: reduce_operands_int_def r1)
  have a1: "- 65536 \<le> c_div INT_MAX 65536" "1 \<le> c_div INT_MAX 65536" "1 \<le> c_div INT_MAX 1"
    by (simp_all add: c_div_def INT_MAX_def)
  have out: "(65536::int) * (- 65536) < - INT_MAX - 1"
    by (simp add: INT_MAX_def)
  have w: "wrap_int (- 4294967296) = 0" "wrap_int 1 = 1" "wrap_int 65536 = 65536"
    by (simp_all add: wrap_int_def)
  have c: "Rational2_int 65536 1 = Inr \<lparr>numerator = 65536, denominator = 1\<rparr>"
    using a1 by (simp add: Rational2_int_def Rational4_int_def ro w g)
  have t: "times_number_int \<lparr>numerator = 65536, denominator = 1\<rparr> (- 65536)
       = Inr \<lparr>numerator = 0, denominator = 1\<rparr>"
    using a1 by (simp add: times_number_int_def Rational4_int_def ro w g)
  show ?thesis using c ro(1) a1(1) a1(3) out t by simp
qed

text \<open>
  The same check stops a construction that does not overflow, once an operand in the
  first place is negative: \<^verbatim>\<open>Rational<int>(-4, 6)\<close> fails \<open>INT_MAX / -2 \<ge> 1\<close>.
\<close>

lemma negative_numerator_fails_the_assertion:
  "Rational2_int (- 4) 6 = Inl AssertionFailed"
  by code_simp



text \<open>
  Claim C6 says that \<open>Rational(n, d)\<close> with \<open>d \<noteq> 0\<close> has gcd 1. It fails at \<open>n = 0\<close>:
  \<open>Rational(0, 5)\<close> is \<open>{0,0}\<close>, whose gcd is 0.
\<close>

theorem constructed_not_reduced_counterexample:
  "Rational2 (0::32 word) 5 = Inr \<lparr>numerator = 0, denominator = 0\<rparr>
   \<and> (5::32 word) \<noteq> 0
   \<and> Rational_gcd (0::32 word) 0 \<noteq> 1"
  by (simp add: Rational2_def Rational4_def Rational_gcd.simps)

text \<open>
  Claim C6, amended. For every \<open>n \<noteq> 0\<close> and \<open>d \<noteq> 0\<close> the constructor returns a value;
  the gcd of its fields is 1 (as the code's \<open>gcd\<close> computes it, and arithmetically), and
  it stands for the same fraction as \<open>n/d\<close>.
\<close>

theorem constructed_nonzero_is_reduced:
  fixes n d :: "'a::len word"
  assumes "n \<noteq> 0" "d \<noteq> 0"
  shows "\<exists>r. Rational2 n d = Inr r
           \<and> Rational_gcd (numerator r) (denominator r) = 1
           \<and> gcd (unat (numerator r)) (unat (denominator r)) = 1
           \<and> unat (numerator r) * unat d = unat n * unat (denominator r)"
proof -
  obtain r where r: "Rational2 n d = Inr r" using Rational2_total by blast
  then have r4: "Rational4 n 1 d 1 = Inr r" by (simp add: Rational2_def)
  have nz: "n \<noteq> 0" "1 \<noteq> (0::'a word)" "d \<noteq> 0" "1 \<noteq> (0::'a word)"
    using assms by simp_all
  note p = Rational4_nonzero_result [OF nz r4]
  have cop: "gcd (unat (numerator r)) (unat (denominator r)) = 1"
    using p(3) by (simp add: coprime_iff_gcd_eq_1)
  then have "unat (Rational_gcd (numerator r) (denominator r)) = 1"
    by (simp add: Rational_gcd_unat)
  then have g: "Rational_gcd (numerator r) (denominator r) = 1"
    by (metis unat_1 word_unat_eq_iff)
  have v: "unat (numerator r) * unat d = unat n * unat (denominator r)"
    using p(4) by simp
  show ?thesis using r g cop v by (intro exI [of _ r] conjI)
qed

text \<open>\<open>Rational(12, 18)\<close> is \<open>2/3\<close>.\<close>

theorem constructed_nonzero_is_reduced_witness:
  "(12::32 word) \<noteq> 0 \<and> (18::32 word) \<noteq> 0
   \<and> Rational2 (12::32 word) 18 = Inr \<lparr>numerator = 2, denominator = 3\<rparr>
   \<and> Rational_gcd (2::32 word) 3 = 1"
proof -
  have nz: "(12::32 word) \<noteq> 0" "(18::32 word) \<noteq> 0" by simp_all
  have c: "Rational2 (12::32 word) 18 = Inr \<lparr>numerator = 2, denominator = 3\<rparr>"
    by code_simp
  from constructed_nonzero_is_reduced [OF nz] c
  have "Rational_gcd (2::32 word) 3 = 1" by auto
  then show ?thesis using nz c by simp
qed

text \<open>
  Claim C10. \<open>truncate()\<close> divides the numerator by the denominator with no guard. With a
  non-zero denominator it returns the truncated quotient; with a zero denominator, as in
  the canonical zero that \<open>Rational(0, 5)\<close> returns, it divides by zero.
\<close>

theorem truncate_needs_nonzero_denominator:
  fixes r :: "'a::len word Rational"
  shows "(denominator r \<noteq> 0 \<longrightarrow>
            (\<exists>q. truncate_rational r = Inr q
                \<and> unat q = unat (numerator r) div unat (denominator r)))
       \<and> (denominator r = 0 \<longrightarrow> truncate_rational r = Inl DivisionByZero)
       \<and> truncate_rational (canonical_zero :: 'a word Rational) = Inl DivisionByZero
       \<and> (\<exists>z. Rational2 (0 :: 'a word) 5 = Inr z \<and> truncate_rational z = Inl DivisionByZero)"
proof -
  have ok: "denominator r \<noteq> 0 \<longrightarrow>
      (\<exists>q. truncate_rational r = Inr q \<and> unat q = unat (numerator r) div unat (denominator r))"
    by (simp add: truncate_rational_def unat_div)
  have bad: "denominator r = 0 \<longrightarrow> truncate_rational r = Inl DivisionByZero"
    by (simp add: truncate_rational_def)
  have z: "truncate_rational (canonical_zero :: 'a word Rational) = Inl DivisionByZero"
    by (simp add: truncate_rational_def canonical_zero_def)
  have "Rational2 (0 :: 'a word) 5 = Inr canonical_zero"
    by (simp add: Rational2_def Rational4_zero)
  then have c: "\<exists>z. Rational2 (0 :: 'a word) 5 = Inr z \<and> truncate_rational z = Inl DivisionByZero"
    using z by simp
  show ?thesis using ok bad z c by blast
qed

text \<open>\<open>7/2\<close> truncates to 3; the canonical zero does not truncate.\<close>

theorem truncate_needs_nonzero_denominator_witness:
  "truncate_rational \<lparr>numerator = 7::32 word, denominator = 2\<rparr> = Inr 3
   \<and> truncate_rational \<lparr>numerator = 0::32 word, denominator = 0\<rparr> = Inl DivisionByZero"
proof -
  note th = truncate_needs_nonzero_denominator
  from th [of "\<lparr>numerator = 7::32 word, denominator = 2\<rparr>"]
  obtain q :: "32 word" where q: "truncate_rational \<lparr>numerator = 7::32 word, denominator = 2\<rparr> = Inr q"
    "unat q = unat (7::32 word) div unat (2::32 word)"
    by auto
  have "unat q = 3" using q(2) by simp
  then have "q = 3" by (simp add: word_unat_eq_iff)
  moreover from th [of "\<lparr>numerator = 0::32 word, denominator = 0\<rparr>"]
  have "truncate_rational \<lparr>numerator = 0::32 word, denominator = 0\<rparr> = Inl DivisionByZero"
    by simp
  ultimately show ?thesis using q(1) by simp
qed

text \<open>
  Claim C2 says that \<open>(a/b) * (c/d)\<close> first reduces the pairs \<open>(a, c)\<close>, \<open>(a, d)\<close>,
  \<open>(b, c)\<close>, \<open>(b, d)\<close>. The code does not reduce a numerator against a numerator:
  \<open>(2/1) * (2/1)\<close> is \<open>4/1\<close>, where the residues of the worded reduction multiply to
  \<open>1/1\<close>.
\<close>

theorem times_as_specified_counterexample:
  "times_rational \<lparr>numerator = 2::32 word, denominator = 1\<rparr> \<lparr>numerator = 2, denominator = 1\<rparr>
     = Inr \<lparr>numerator = 4, denominator = 1\<rparr>
   \<and> residues_as_specified 2 1 2 1 = (1, 1, 1, 1)
   \<and> (multiply_residues (residues_as_specified 2 1 2 1) :: failure + 32 word Rational)
     = Inr \<lparr>numerator = 1, denominator = 1\<rparr>
   \<and> times_rational \<lparr>numerator = 2::32 word, denominator = 1\<rparr> \<lparr>numerator = 2, denominator = 1\<rparr>
     \<noteq> multiply_residues (residues_as_specified 2 1 2 1)"
proof -
  have t: "times_rational \<lparr>numerator = 2::32 word, denominator = 1\<rparr> \<lparr>numerator = 2, denominator = 1\<rparr>
     = Inr \<lparr>numerator = 4, denominator = 1\<rparr>"
    by code_simp
  have r: "residues_as_specified 2 1 2 1 = (1, 1, 1, 1)"
    by (simp add: residues_as_specified_def reduce_nat_def gcd_non_0_nat)
  have m: "(multiply_residues (1, 1, 1, 1) :: failure + 32 word Rational)
     = Inr \<lparr>numerator = 1, denominator = 1\<rparr>"
    by (simp add: multiply_residues_def unat_numeric_limits_max)
  show ?thesis unfolding t r m by simp
qed

text \<open>
  Claim C2, amended. For non-zero \<open>a, b, c, d\<close>, \<open>(a/b) * (c/d)\<close> reduces each numerator
  against each denominator, the pairs \<open>(a, b)\<close>, \<open>(a, d)\<close>, \<open>(c, b)\<close>, \<open>(c, d)\<close> in that
  order, and then multiplies the residues: numerator residue by numerator residue,
  denominator residue by denominator residue (stopping with a failed assertion when a
  product is out of range). The products of the residues are coprime and stand for the
  same fraction as \<open>(a * c) / (b * d)\<close>.
\<close>

theorem times_multiplies_cross_reduced_residues:
  fixes a b c d :: "'a::len word"
  assumes nz: "a \<noteq> 0" "b \<noteq> 0" "c \<noteq> 0" "d \<noteq> 0"
  shows "times_rational \<lparr>numerator = a, denominator = b\<rparr> \<lparr>numerator = c, denominator = d\<rparr>
           = multiply_residues (residues (unat a) (unat b) (unat c) (unat d))
       \<and> (\<exists>a' c' b' d'. residues (unat a) (unat b) (unat c) (unat d) = (a', c', b', d')
             \<and> coprime (a' * c') (b' * d')
             \<and> a' * c' * (unat b * unat d) = unat a * unat c * (b' * d'))"
proof -
  have nz': "a \<noteq> 0" "c \<noteq> 0" "b \<noteq> 0" "d \<noteq> 0" using nz by simp_all
  obtain n1 n2 d1 d2 where ro: "reduce_operands a c b d = Inr (n1, n2, d1, d2)"
    and rs: "residues (unat a) (unat b) (unat c) (unat d) = (unat n1, unat n2, unat d1, unat d2)"
    using reduce_operands_unat [OF nz'] by blast
  have pos: "0 < unat a" "0 < unat b" "0 < unat c" "0 < unat d"
    using nz by (simp_all add: unat_gt_0)
  note rp = residues_props [OF pos rs]
  have prod: "of_nat (unat n1 * unat n2) = n1 * n2" "of_nat (unat d1 * unat d2) = d1 * d2"
    by simp_all
  have "times_rational \<lparr>numerator = a, denominator = b\<rparr> \<lparr>numerator = c, denominator = d\<rparr>
          = multiply_residues (residues (unat a) (unat b) (unat c) (unat d))"
    using Rational4_after_reduction [OF nz' ro]
    by (simp add: times_rational_def multiply_residues_def rs le_numeric_limits_max prod
        del: of_nat_mult)
  then show ?thesis using rs rp(5) rp(6) by blast
qed

text \<open>
  Reducing before multiplying: \<open>(2^31 / 3) * (3 / 2^31)\<close> is \<open>1/1\<close> on 32 bits, although
  \<open>2^31 * 3\<close> is out of range.
\<close>

theorem times_multiplies_cross_reduced_residues_witness:
  "times_rational \<lparr>numerator = 2147483648::32 word, denominator = 3\<rparr>
       \<lparr>numerator = 3, denominator = 2147483648\<rparr>
     = Inr \<lparr>numerator = 1, denominator = 1\<rparr>
   \<and> residues 2147483648 3 3 2147483648 = (1, 1, 1, 1)
   \<and> unat (numeric_limits_max :: 32 word) < 2147483648 * 3"
proof -
  have nz: "(2147483648::32 word) \<noteq> 0" "(3::32 word) \<noteq> 0" by simp_all
  have r: "residues 2147483648 3 3 2147483648 = (1, 1, 1, 1)"
    by (simp add: residues_def reduce_nat_def gcd_non_0_nat)
  have m: "(multiply_residues (1, 1, 1, 1) :: failure + 32 word Rational)
     = Inr \<lparr>numerator = 1, denominator = 1\<rparr>"
    by (simp add: multiply_residues_def unat_numeric_limits_max)
  from times_multiplies_cross_reduced_residues [OF nz(1) nz(2) nz(2) nz(1)]
  have "times_rational \<lparr>numerator = 2147483648::32 word, denominator = 3\<rparr>
       \<lparr>numerator = 3, denominator = 2147483648\<rparr>
     = multiply_residues (residues 2147483648 3 3 2147483648)"
    by simp
  then show ?thesis unfolding r m by (simp add: unat_numeric_limits_max)
qed

text \<open>
  Claim C5 says \<open>(a * b) * b.inverse() == a\<close> for all \<open>a\<close> and \<open>b\<close> when nothing
  overflows. It fails for a zero \<open>b\<close>: with \<open>a = Rational(1, 2)\<close> and
  \<open>b = Rational(0, 5) = {0,0}\<close> every step returns, and the result is \<open>{0,0}\<close>.
\<close>

theorem round_trip_counterexample:
  "Rational2 (1::32 word) 2 = Inr \<lparr>numerator = 1, denominator = 2\<rparr>
   \<and> Rational2 (0::32 word) 5 = Inr \<lparr>numerator = 0, denominator = 0\<rparr>
   \<and> times_rational \<lparr>numerator = 1::32 word, denominator = 2\<rparr> \<lparr>numerator = 0, denominator = 0\<rparr>
       = Inr \<lparr>numerator = 0, denominator = 0\<rparr>
   \<and> inverse_rational \<lparr>numerator = 0::32 word, denominator = 0\<rparr>
       = Inr \<lparr>numerator = 0, denominator = 0\<rparr>
   \<and> times_rational \<lparr>numerator = 0::32 word, denominator = 0\<rparr> \<lparr>numerator = 0, denominator = 0\<rparr>
       = Inr \<lparr>numerator = 0, denominator = 0\<rparr>
   \<and> \<not> equals \<lparr>numerator = 0::32 word, denominator = 0\<rparr> \<lparr>numerator = 1, denominator = 2\<rparr>"
proof -
  have "Rational2 (1::32 word) 2 = Inr \<lparr>numerator = 1, denominator = 2\<rparr>"
    by code_simp
  then show ?thesis
    by (simp add: Rational2_def inverse_rational_def times_rational_def Rational4_zero
        canonical_zero_def equals_def)
qed

text \<open>
  Claim C5, amended. For every constructed \<open>a = Rational(n, d)\<close> and every \<open>b\<close> with
  non-zero numerator and denominator (or any \<open>b\<close> when \<open>a\<close> is the canonical zero):
  if \<open>a * b\<close>, \<open>b.inverse()\<close> and their product all return, the product equals \<open>a\<close>
  under \<open>operator==\<close>.
\<close>

theorem round_trip:
  fixes n d :: "'a::len word" and a b :: "'a word Rational"
  assumes a: "Rational2 n d = Inr a"
    and b: "to_bool b \<or> equals a canonical_zero"
    and ab: "times_rational a b = Inr ab"
    and bi: "inverse_rational b = Inr bi"
    and r: "times_rational ab bi = Inr r"
  shows "equals r a"
proof (cases "n = 0 \<or> d = 0")
  case True
  then have "a = canonical_zero"
    using a by (simp add: Rational2_def Rational4_zero)
  then have za: "numerator a = 0" "denominator a = 0"
    by (simp_all add: canonical_zero_def)
  have "ab = canonical_zero"
    using ab by (simp add: times_rational_def za Rational4_zero)
  then have "numerator ab = 0" by (simp add: canonical_zero_def)
  then have "r = canonical_zero"
    using r by (simp add: times_rational_def Rational4_zero)
  then show ?thesis by (simp add: equals_def canonical_zero_def za)
next
  case False
  then have nz: "n \<noteq> 0" "1 \<noteq> (0::'a word)" "d \<noteq> 0" "1 \<noteq> (0::'a word)" by simp_all
  have a4: "Rational4 n 1 d 1 = Inr a" using a by (simp add: Rational2_def)
  note pa = Rational4_nonzero_result [OF nz a4]
  have anz: "numerator a \<noteq> 0" "denominator a \<noteq> 0"
    using pa(1) pa(2) by (simp_all add: unat_gt_0)
  then have "\<not> equals a canonical_zero" by (simp add: equals_def canonical_zero_def)
  then have bnz: "numerator b \<noteq> 0" "denominator b \<noteq> 0"
    using b by (simp_all add: to_bool_def)
  have ab4: "Rational4 (numerator a) (numerator b) (denominator a) (denominator b) = Inr ab"
    using ab by (simp add: times_rational_def)
  note pab = Rational4_nonzero_result [OF anz(1) bnz(1) anz(2) bnz(2) ab4]
  have bi4: "Rational4 (denominator b) 1 (numerator b) 1 = Inr bi"
    using bi by (simp add: inverse_rational_def Rational2_def)
  note pbi = Rational4_nonzero_result [OF bnz(2) nz(2) bnz(1) nz(2) bi4]
  have abnz: "numerator ab \<noteq> 0" "denominator ab \<noteq> 0"
    using pab(1) pab(2) by (simp_all add: unat_gt_0)
  have binz: "numerator bi \<noteq> 0" "denominator bi \<noteq> 0"
    using pbi(1) pbi(2) by (simp_all add: unat_gt_0)
  have r4: "Rational4 (numerator ab) (numerator bi) (denominator ab) (denominator bi) = Inr r"
    using r by (simp add: times_rational_def)
  note pr = Rational4_nonzero_result [OF abnz(1) binz(1) abnz(2) binz(2) r4]
  have bpos: "0 < unat (numerator b)" "0 < unat (denominator b)"
    using bnz by (simp_all add: unat_gt_0)
  have bi': "unat (numerator bi) * unat (numerator b) = unat (denominator b) * unat (denominator bi)"
    using pbi(4) by simp
  have cross: "unat (numerator r) * unat (denominator a) = unat (numerator a) * unat (denominator r)"
    by (rule round_trip_value [OF pab(4) bi' pr(4) pab(2) pbi(2) bpos])
  have "unat (numerator r) = unat (numerator a) \<and> unat (denominator r) = unat (denominator a)"
    by (rule reduced_fraction_unique [OF pr(3) pa(3) cross pr(2) pa(2)])
  then show ?thesis by (simp add: equals_def word_unat_eq_iff)
qed

text \<open>\<open>((1/2) * (3/4)) * (4/3)\<close> is \<open>1/2\<close>.\<close>

theorem round_trip_witness:
  "Rational2 (2::32 word) 4 = Inr \<lparr>numerator = 1, denominator = 2\<rparr>
   \<and> to_bool \<lparr>numerator = 3::32 word, denominator = 4\<rparr>
   \<and> times_rational \<lparr>numerator = 1::32 word, denominator = 2\<rparr> \<lparr>numerator = 3, denominator = 4\<rparr>
       = Inr \<lparr>numerator = 3, denominator = 8\<rparr>
   \<and> inverse_rational \<lparr>numerator = 3::32 word, denominator = 4\<rparr>
       = Inr \<lparr>numerator = 4, denominator = 3\<rparr>
   \<and> times_rational \<lparr>numerator = 3::32 word, denominator = 8\<rparr> \<lparr>numerator = 4, denominator = 3\<rparr>
       = Inr \<lparr>numerator = 1, denominator = 2\<rparr>
   \<and> equals \<lparr>numerator = 1::32 word, denominator = 2\<rparr> \<lparr>numerator = 1, denominator = 2\<rparr>"
proof -
  have a: "Rational2 (2::32 word) 4 = Inr \<lparr>numerator = 1, denominator = 2\<rparr>"
    by code_simp
  have b: "to_bool \<lparr>numerator = 3::32 word, denominator = 4\<rparr>
             \<or> equals \<lparr>numerator = 1::32 word, denominator = 2\<rparr> canonical_zero"
    by (simp add: to_bool_def)
  have ab: "times_rational \<lparr>numerator = 1::32 word, denominator = 2\<rparr> \<lparr>numerator = 3, denominator = 4\<rparr>
       = Inr \<lparr>numerator = 3, denominator = 8\<rparr>"
    by code_simp
  have bi: "inverse_rational \<lparr>numerator = 3::32 word, denominator = 4\<rparr>
       = Inr \<lparr>numerator = 4, denominator = 3\<rparr>"
    by code_simp
  have r: "times_rational \<lparr>numerator = 3::32 word, denominator = 8\<rparr> \<lparr>numerator = 4, denominator = 3\<rparr>
       = Inr \<lparr>numerator = 1, denominator = 2\<rparr>"
    by code_simp
  have "equals \<lparr>numerator = 1::32 word, denominator = 2\<rparr> \<lparr>numerator = 1, denominator = 2\<rparr>"
    by (rule round_trip [OF a b ab bi r])
  then show ?thesis using a ab bi r by (simp add: to_bool_def)
qed

section \<open>Claims about the rectangle fitting, the states and the client list\<close>

text \<open>
  Claim C7. For every frame, bounds and sample aspect ratio, \<open>FitVideoToRegion\<close> with mode
  \<open>Stretch\<close> returns the source rectangle \<open>frame\<close> and the destination rectangle
  \<open>bounds\<close>. The display aspect ratio is not preserved: a 1920 by 1080 frame of square
  pixels (ratio \<open>16/9\<close>) stretched into 640 by 480 is drawn at ratio \<open>4/3\<close>.
\<close>

theorem Stretch_fills_bounds:
  "FitVideoToRegion frame bounds sample_aspect_ratio Stretch = Inr (frame, bounds)
   \<and> FitVideoToRegion
        \<lparr>rect_x = 0, rect_y = 0, rect_w = 1920, rect_h = 1080\<rparr>
        \<lparr>rect_x = 0, rect_y = 0, rect_w = 640, rect_h = 480\<rparr>
        \<lparr>numerator = 1, denominator = 1\<rparr> Stretch
      = Inr (\<lparr>rect_x = 0, rect_y = 0, rect_w = 1920, rect_h = 1080\<rparr>,
             \<lparr>rect_x = 0, rect_y = 0, rect_w = 640, rect_h = 480\<rparr>)
   \<and> display_aspect_ratio \<lparr>rect_x = 0, rect_y = 0, rect_w = 1920, rect_h = 1080\<rparr>
        \<lparr>numerator = 1, denominator = 1\<rparr> = Inr \<lparr>numerator = 16, denominator = 9\<rparr>
   \<and> Rational2 (640 :: 32 word) 480 = Inr \<lparr>numerator = 4, denominator = 3\<rparr>"
proof -
  have s: "\<And>frame bounds sar. FitVideoToRegion frame bounds sar Stretch = Inr (frame, bounds)"
    by (simp add: FitVideoToRegion_def)
  have dar: "display_aspect_ratio \<lparr>rect_x = 0, rect_y = 0, rect_w = 1920, rect_h = 1080\<rparr>
        \<lparr>numerator = 1, denominator = 1\<rparr> = Inr \<lparr>numerator = 16, denominator = 9\<rparr>"
    by code_simp
  have b: "Rational2 (640 :: 32 word) 480 = Inr \<lparr>numerator = 4, denominator = 3\<rparr>"
    by code_simp
  show ?thesis using s dar b by simp
qed

text \<open>
  Claim C9. The underlying values of \<open>VideoReadyState\<close> are \<open>-1, 0, 1, 2, 3, 4\<close> in the
  order of declaration, so \<open>NotAttached < HaveNothing < HaveMetadata < HaveCurrentData <
  HaveFutureData < HaveEnoughData\<close> under the comparison of the underlying values, which
  is a strict total order of the six states.
\<close>

theorem VideoReadyState_total_order:
  "map (\<lambda>s. sint (underlying_value s))
       [NotAttached, HaveNothing, HaveMetadata, HaveCurrentData, HaveFutureData, HaveEnoughData]
     = [- 1, 0, 1, 2, 3, 4]
   \<and> ready_state_less NotAttached HaveNothing
   \<and> ready_state_less HaveNothing HaveMetadata
   \<and> ready_state_less HaveMetadata HaveCurrentData
   \<and> ready_state_less HaveCurrentData HaveFutureData
   \<and> ready_state_less HaveFutureData HaveEnoughData
   \<and> (\<forall>a b. ready_state_less a b \<or> a = b \<or> ready_state_less b a)
   \<and> (\<forall>a. \<not> ready_state_less a a)
   \<and> (\<forall>a b c. ready_state_less a b \<and> ready_state_less b c \<longrightarrow> ready_state_less a c)"
proof -
  have vals: "map (\<lambda>s. sint (underlying_value s))
       [NotAttached, HaveNothing, HaveMetadata, HaveCurrentData, HaveFutureData, HaveEnoughData]
     = [- 1, 0, 1, 2, 3, 4]"
    by simp
  have chain: "ready_state_less NotAttached HaveNothing"
    "ready_state_less HaveNothing HaveMetadata"
    "ready_state_less HaveMetadata HaveCurrentData"
    "ready_state_less HaveCurrentData HaveFutureData"
    "ready_state_less HaveFutureData HaveEnoughData"
    by (simp_all add: ready_state_less_def)
  have total: "\<forall>a b. ready_state_less a b \<or> a = b \<or> ready_state_less b a"
  proof (intro allI)
    fix a b show "ready_state_less a b \<or> a = b \<or> ready_state_less b a"
      by (cases a; cases b) (simp_all add: ready_state_less_def)
  qed
  have irrefl: "\<forall>a. \<not> ready_state_less a a"
    by (simp add: ready_state_less_def)
  have trans: "\<forall>a b c. ready_state_less a b \<and> ready_state_less b c \<longrightarrow> ready_state_less a c"
    by (auto simp: ready_state_less_def)
  show ?thesis using vals chain total irrefl trans by blast
qed

text \<open>Two comparisons that follow by transitivity.\<close>

theorem VideoReadyState_total_order_witness:
  "ready_state_less NotAttached HaveMetadata \<and> ready_state_less HaveNothing HaveEnoughData
   \<and> sint (underlying_value NotAttached) = - 1"
proof -
  note th = VideoReadyState_total_order
  from th have t: "\<And>a b c. ready_state_less a b \<Longrightarrow> ready_state_less b c \<Longrightarrow> ready_state_less a c"
    by blast
  from th have c: "ready_state_less NotAttached HaveNothing"
    "ready_state_less HaveNothing HaveMetadata"
    "ready_state_less HaveMetadata HaveCurrentData"
    "ready_state_less HaveCurrentData HaveFutureData"
    "ready_state_less HaveFutureData HaveEnoughData"
    by blast+
  have "ready_state_less NotAttached HaveMetadata" by (rule t [OF c(1) c(2)])
  moreover have "ready_state_less HaveNothing HaveEnoughData"
    by (rule t [OF t [OF t [OF c(2) c(3)] c(4)] c(5)])
  ultimately show ?thesis by simp
qed

text \<open>
  Claim C8. After any sequence of \<open>AddClient\<close>, \<open>RemoveClient\<close> and \<open>On*\<close> calls on a new
  client list, the registered clients are distinct. Adding a registered client changes
  nothing; adding a new one puts it last; either way it is registered exactly once.
  Removing an unregistered client changes nothing; removing a registered one keeps the
  others in their order. An \<open>On*\<close> call changes no registration and appends to the trace
  one callback per registered client, in registration order: each registered client gets
  the event exactly once, and no other client gets it.
\<close>

theorem ClientList_registrations_and_fan_out:
  fixes ks :: "'d Call list" and l :: "'d ClientList"
  assumes l: "l = run_calls ks ClientList_new"
  shows "distinct (clients l)
       \<and> (c \<in> set (clients l) \<longrightarrow> AddClient c l = l)
       \<and> (c \<notin> set (clients l) \<longrightarrow>
             RemoveClient c l = l \<and> clients (AddClient c l) = clients l @ [c])
       \<and> count_list (clients (AddClient c l)) c = 1
       \<and> clients (RemoveClient c l) = filter (\<lambda>x. x \<noteq> c) (clients l)
       \<and> c \<notin> set (clients (RemoveClient c l))
       \<and> clients (On ev l) = clients l
       \<and> calls (On ev l) = calls l @ map (\<lambda>x. (x, ev)) (clients l)
       \<and> (\<forall>x. count_list (drop (length (calls l)) (calls (On ev l))) (x, ev)
               = (if x \<in> set (clients l) then 1 else 0))"
proof -
  have d: "distinct (clients l)"
    unfolding l by (rule run_calls_distinct) (simp add: ClientList_new_def)
  have add_old: "c \<in> set (clients l) \<longrightarrow> AddClient c l = l"
    by (simp add: AddClient_def)
  have "c \<notin> set (clients l) \<longrightarrow> filter (\<lambda>x. x \<noteq> c) (clients l) = clients l"
    by (auto intro: filter_True)
  then have new: "c \<notin> set (clients l) \<longrightarrow>
      RemoveClient c l = l \<and> clients (AddClient c l) = clients l @ [c]"
    by (simp add: RemoveClient_def AddClient_def)
  have once: "count_list (clients (AddClient c l)) c = 1"
    using AddClient_distinct [OF d, of c]
    by (simp add: distinct_count_list) (simp add: AddClient_def)
  have rem: "clients (RemoveClient c l) = filter (\<lambda>x. x \<noteq> c) (clients l)"
    "c \<notin> set (clients (RemoveClient c l))"
    by (simp_all add: RemoveClient_def)
  have on_clients: "clients (On ev l) = clients l"
    by (simp add: On_def)
  have on_calls: "calls (On ev l) = calls l @ map (\<lambda>x. (x, ev)) (clients l)"
    by (simp add: On_def fan_out_trace)
  have dm: "distinct (map (\<lambda>x. (x, ev)) (clients l))"
    using d by (simp add: distinct_map inj_on_def)
  have each: "\<forall>x. count_list (drop (length (calls l)) (calls (On ev l))) (x, ev)
               = (if x \<in> set (clients l) then 1 else 0)"
    using dm by (auto simp: on_calls distinct_count_list)
  show ?thesis using d add_old new once rem on_clients on_calls each by blast
qed

text \<open>
  Clients 1, 2, 3 are registered and \<open>OnPlay\<close> fires; 2 is removed, 1 is added again and
  \<open>OnPlay\<close> fires again: the callbacks go to 1, 2, 3 and then to 1, 3.
\<close>

theorem ClientList_registrations_and_fan_out_witness:
  "run_calls [CallAddClient 1, CallAddClient 2, CallAddClient 3, CallOn OnPlay,
              CallRemoveClient 2, CallAddClient 1, CallOn OnPlay] (ClientList_new :: unit ClientList)
     = \<lparr>clients = [1, 3],
        calls = [(1, OnPlay), (2, OnPlay), (3, OnPlay), (1, OnPlay), (3, OnPlay)]\<rparr>
   \<and> distinct [1, 3 :: nat]
   \<and> AddClient 3 \<lparr>clients = [1, 3],
        calls = [(1, OnPlay), (2, OnPlay), (3, OnPlay), (1, OnPlay), (3, OnPlay :: unit ClientEvent)]\<rparr>
     = \<lparr>clients = [1, 3],
        calls = [(1, OnPlay), (2, OnPlay), (3, OnPlay), (1, OnPlay), (3, OnPlay)]\<rparr>
   \<and> calls (On OnSeeking \<lparr>clients = [1, 3],
        calls = [(1, OnPlay), (2, OnPlay), (3, OnPlay), (1, OnPlay), (3, OnPlay :: unit ClientEvent)]\<rparr>)
     = [(1, OnPlay), (2, OnPlay), (3, OnPlay), (1, OnPlay), (3, OnPlay), (1, OnSeeking), (3, OnSeeking)]"
proof -
  let ?l = "\<lparr>clients = [1, 3],
        calls = [(1, OnPlay), (2, OnPlay), (3, OnPlay), (1, OnPlay), (3, OnPlay :: unit ClientEvent)]\<rparr>"
  have run: "?l = run_calls [CallAddClient 1, CallAddClient 2, CallAddClient 3, CallOn OnPlay,
              CallRemoveClient 2, CallAddClient 1, CallOn OnPlay] ClientList_new"
    by (simp add: ClientList_new_def AddClient_def RemoveClient_def On_def)
  note th = ClientList_registrations_and_fan_out [OF run, of 3 OnSeeking]
  from th have d: "distinct [1, 3 :: nat]" by simp
  from th have a: "AddClient 3 ?l = ?l" by simp
  from th have f: "calls (On OnSeeking ?l)
     = [(1, OnPlay), (2, OnPlay), (3, OnPlay), (1, OnPlay), (3, OnPlay), (1, OnSeeking), (3, OnSeeking)]"
    by simp
  show ?thesis using run d a f by simp
qed

end
